theory Spec2Isabelle
  imports Main "HOL-Library.Multiset"
begin

section \<open>Data model\<close>

text \<open>
  The server keeps \<^verbatim>\<open>Memory\<close> objects (\<^verbatim>\<open>interface Memory\<close>). A \<^verbatim>\<open>Date\<close> is
  represented by its time value, the number of milliseconds since the epoch; every
  \<^verbatim>\<open>Date\<close> of the program comes from \<^verbatim>\<open>new Date()\<close> and is therefore valid.
  Strings are lists of characters.
\<close>

record Memory =
  id :: string
  content :: string
  userId :: string
  timestamp :: int

text \<open>
  The arguments of a tool call have type \<^verbatim>\<open>any\<close>: a JSON value, or \<^verbatim>\<open>undefined\<close>
  when the request carries none. An object is the list of its own properties; a property
  lookup takes the first binding of the name.
\<close>

datatype jsval =
    JUndefined
  | JNull
  | JBool bool
  | JNum int
  | JStr string
  | JArr "jsval list"
  | JObj "(string \<times> jsval) list"

text \<open>
  One keyspace of the Redis/DragonflyDB server holds string values and sorted sets. The
  only string values the server writes are the JSON texts of \<^verbatim>\<open>addMemory\<close>; such a
  text is represented by the four fields it encodes (\<^verbatim>\<open>JSON.parse\<close> gives them back,
  and \<^verbatim>\<open>new Date(iso).getTime()\<close> gives back the time value of the ISO-8601 text). A
  sorted set is the list of its (member, score) pairs in ascending order of score, members
  of equal score in ascending byte order.
\<close>

datatype redis_val = RString Memory | RZSet "(string \<times> int) list"

type_synonym redis_db = "string \<Rightarrow> redis_val option"

datatype redis_error = ConnectionError | WrongType

record server_state =
  memories :: "Memory list"
  redis :: redis_db

text \<open>
  What a call takes from outside the program: the text of
  \<^verbatim>\<open>Math.random().toString(36)\<close>, the two clock readings, and whether each command
  sent to the store is answered or rejected by the connection (\<^verbatim>\<open>get_ok e n\<close> is for
  the \<^verbatim>\<open>get\<close> command number \<open>n\<close> of a search). A command that is rejected leaves the
  store as it was.
\<close>

record env =
  random36 :: string
  newDate :: int
  dateNow :: int
  set_ok :: bool
  zadd_ok :: bool
  zrevrange_ok :: bool
  get_ok :: "nat \<Rightarrow> bool"

text \<open>The members of the SDK's \<^verbatim>\<open>ErrorCode\<close> enumeration.\<close>

datatype ErrorCode =
    ConnectionClosed
  | RequestTimeout
  | ParseError
  | InvalidRequest
  | MethodNotFound
  | InvalidParams
  | InternalError

text \<open>An issue of a failed schema check: the path of the offending value.\<close>

datatype zod_issue = InvalidType "string list"

datatype error = ZodError "zod_issue list" | McpError ErrorCode string

text \<open>The value a tool returns: \<^verbatim>\<open>{content: [{type: "text", text}]}\<close>.\<close>

datatype tool_result = TextContent string

text \<open>
  An element of \<^verbatim>\<open>results\<close> in \<^verbatim>\<open>searchMemories\<close>; its \<^verbatim>\<open>timestamp\<close> is an
  ISO-8601 text, represented by the time value it denotes.
\<close>

record search_hit =
  hit_id :: string
  hit_content :: string
  hit_timestamp :: int

section \<open>String operations of the language\<close>

text \<open>
  Two functions of the language are not defined here: the case folding of
  \<^verbatim>\<open>String.prototype.toLowerCase\<close>, which follows the Unicode character data and is
  not a map of single characters, and the rendering of a time value by
  \<^verbatim>\<open>Date.prototype.toISOString\<close>. They are parameters of the model: every function
  that calls one of them takes the pair, and a statement about such a function holds for
  whatever the two are, unless it says what it asks of them.
\<close>

record language =
  toLowerCase :: "string \<Rightarrow> string"
  toISOString :: "int \<Rightarrow> string"

text \<open>\<^verbatim>\<open>includes\<close> looks for the argument at every position of the string.\<close>

fun startsWith :: "string \<Rightarrow> string \<Rightarrow> bool" where
  "startsWith s [] = True"
| "startsWith [] (q # qs) = False"
| "startsWith (c # cs) (q # qs) = (c = q \<and> startsWith cs qs)"

fun includes_str :: "string \<Rightarrow> string \<Rightarrow> bool" where
  "includes_str [] q = (q = [])"
| "includes_str (c # cs) q = (startsWith (c # cs) q \<or> includes_str cs q)"

text \<open>
  \<^verbatim>\<open>s.substring(a, b)\<close>: both indices are clamped to the length, and swapped when the
  first is the larger.
\<close>

definition substring :: "string \<Rightarrow> nat \<Rightarrow> nat \<Rightarrow> string" where
  "substring s a b =
     (let n = length s; a' = min a n; b' = min b n;
          lo = min a' b'; hi = max a' b'
      in take (hi - lo) (drop lo s))"

definition slice :: "'a list \<Rightarrow> nat \<Rightarrow> nat \<Rightarrow> 'a list" where
  "slice xs a b = take (b - a) (drop a xs)"

fun join :: "string \<Rightarrow> string list \<Rightarrow> string" where
  "join sep [] = []"
| "join sep [x] = x"
| "join sep (x # y # ys) = x @ sep @ join sep (y # ys)"

definition digitChar :: "nat \<Rightarrow> char" where
  "digitChar d = char_of (48 + d)"

fun showNat :: "nat \<Rightarrow> string" where
  "showNat n = (if n < 10 then [digitChar n] else showNat (n div 10) @ [digitChar (n mod 10)])"

text \<open>
  \<^verbatim>\<open>Array.prototype.sort\<close> with a comparison function: the sort is stable, and an element
  goes before another when the comparison is negative. Insertion from the right end gives
  that order.
\<close>

fun insertBy :: "('a \<Rightarrow> 'a \<Rightarrow> int) \<Rightarrow> 'a \<Rightarrow> 'a list \<Rightarrow> 'a list" where
  "insertBy cmp x [] = [x]"
| "insertBy cmp x (y # ys) = (if cmp x y \<le> 0 then x # y # ys else y # insertBy cmp x ys)"

definition js_sort :: "('a \<Rightarrow> 'a \<Rightarrow> int) \<Rightarrow> 'a list \<Rightarrow> 'a list" where
  "js_sort cmp xs = foldr (insertBy cmp) xs []"

section \<open>Schema validation\<close>

text \<open>
  \<^verbatim>\<open>z.object({content: z.string(), userId: z.string().default("quinn_may")})\<close> and the
  same with \<^verbatim>\<open>query\<close>: the input must be an object, the required field a string, and
  \<^verbatim>\<open>userId\<close> a string or absent. All issues are collected; properties the schema does
  not name are dropped.
\<close>

definition getProp :: "(string \<times> jsval) list \<Rightarrow> string \<Rightarrow> jsval" where
  "getProp props k = (case map_of props k of None \<Rightarrow> JUndefined | Some v \<Rightarrow> v)"

fun zString :: "string list \<Rightarrow> jsval \<Rightarrow> zod_issue list + string" where
  "zString path (JStr s) = Inr s"
| "zString path v = Inl [InvalidType path]"

fun zStringDefault :: "string \<Rightarrow> string list \<Rightarrow> jsval \<Rightarrow> zod_issue list + string" where
  "zStringDefault d path JUndefined = Inr d"
| "zStringDefault d path v = zString path v"

fun zObject2 :: "string \<Rightarrow> jsval \<Rightarrow> error + (string \<times> string)" where
  "zObject2 field (JObj props) =
     (case (zString [field] (getProp props field),
            zStringDefault ''quinn_may'' [''userId''] (getProp props ''userId'')) of
        (Inr c, Inr u) \<Rightarrow> Inr (c, u)
      | (Inl is1, Inr u) \<Rightarrow> Inl (ZodError is1)
      | (Inr c, Inl is2) \<Rightarrow> Inl (ZodError is2)
      | (Inl is1, Inl is2) \<Rightarrow> Inl (ZodError (is1 @ is2)))"
| "zObject2 field v = Inl (ZodError [InvalidType []])"

section \<open>Commands of the store\<close>

fun bytesLess :: "string \<Rightarrow> string \<Rightarrow> bool" where
  "bytesLess [] [] = False"
| "bytesLess [] (y # ys) = True"
| "bytesLess (x # xs) [] = False"
| "bytesLess (x # xs) (y # ys) =
     ((of_char x :: nat) < of_char y \<or> (x = y \<and> bytesLess xs ys))"

definition zLess :: "(string \<times> int) \<Rightarrow> (string \<times> int) \<Rightarrow> bool" where
  "zLess a b = (snd a < snd b \<or> (snd a = snd b \<and> bytesLess (fst a) (fst b)))"

fun zInsert :: "(string \<times> int) \<Rightarrow> (string \<times> int) list \<Rightarrow> (string \<times> int) list" where
  "zInsert e [] = [e]"
| "zInsert e (z # zs) = (if zLess e z then e # z # zs else z # zInsert e zs)"

definition redis_set :: "bool \<Rightarrow> string \<Rightarrow> Memory \<Rightarrow> redis_db \<Rightarrow> redis_error + redis_db" where
  "redis_set ok key v db = (if ok then Inr (db(key \<mapsto> RString v)) else Inl ConnectionError)"

definition redis_zadd ::
  "bool \<Rightarrow> string \<Rightarrow> int \<Rightarrow> string \<Rightarrow> redis_db \<Rightarrow> redis_error + redis_db" where
  "redis_zadd ok key score member db =
     (if \<not> ok then Inl ConnectionError
      else case db key of
        None \<Rightarrow> Inr (db(key \<mapsto> RZSet [(member, score)]))
      | Some (RZSet zs) \<Rightarrow>
          Inr (db(key \<mapsto> RZSet (zInsert (member, score) (filter (\<lambda>e. fst e \<noteq> member) zs))))
      | Some (RString v) \<Rightarrow> Inl WrongType)"

definition redis_zrevrange ::
  "bool \<Rightarrow> string \<Rightarrow> nat \<Rightarrow> nat \<Rightarrow> redis_db \<Rightarrow> redis_error + string list" where
  "redis_zrevrange ok key start stop db =
     (if \<not> ok then Inl ConnectionError
      else case db key of
        None \<Rightarrow> Inr []
      | Some (RZSet zs) \<Rightarrow> Inr (slice (rev (map fst zs)) start (Suc stop))
      | Some (RString v) \<Rightarrow> Inl WrongType)"

definition redis_get :: "bool \<Rightarrow> string \<Rightarrow> redis_db \<Rightarrow> redis_error + Memory option" where
  "redis_get ok key db =
     (if \<not> ok then Inl ConnectionError
      else case db key of
        None \<Rightarrow> Inr None
      | Some (RString v) \<Rightarrow> Inr (Some v)
      | Some (RZSet zs) \<Rightarrow> Inl WrongType)"

section \<open>The server with the durable store\<close>

definition memoryKey :: "string \<Rightarrow> string \<Rightarrow> string" where
  "memoryKey u i = ''memory:'' @ u @ '':'' @ i"

definition indexKey :: "string \<Rightarrow> string" where
  "indexKey u = ''memories:'' @ u"

definition newId :: "env \<Rightarrow> string" where
  "newId e = substring (random36 e) 2 15"

definition newMemory :: "env \<Rightarrow> string \<Rightarrow> string \<Rightarrow> Memory" where
  "newMemory e c u = \<lparr>id = newId e, content = c, userId = u, timestamp = newDate e\<rparr>"

text \<open>The \<^verbatim>\<open>try\<close> block of \<^verbatim>\<open>addMemory\<close>: the record is written, then the index.\<close>

definition storeMemory :: "env \<Rightarrow> Memory \<Rightarrow> redis_db \<Rightarrow> redis_db \<times> bool" where
  "storeMemory e m db =
     (case redis_set (set_ok e) (memoryKey (userId m) (id m)) m db of
        Inl err \<Rightarrow> (db, False)
      | Inr db1 \<Rightarrow>
          (case redis_zadd (zadd_ok e) (indexKey (userId m)) (dateNow e) (id m) db1 of
             Inl err \<Rightarrow> (db1, False)
           | Inr db2 \<Rightarrow> (db2, True)))"

definition addedText :: "string \<Rightarrow> string \<Rightarrow> string" where
  "addedText u i = ''Memory added successfully for user '' @ u @ ''. Memory ID: '' @ i"

definition addMemory :: "env \<Rightarrow> jsval \<Rightarrow> server_state \<Rightarrow> (error + tool_result) \<times> server_state" where
  "addMemory e args st =
     (case zObject2 ''content'' args of
        Inl err \<Rightarrow> (Inl err, st)
      | Inr (c, u) \<Rightarrow>
          (let m = newMemory e c u;
               (db, stored) = storeMemory e m (redis st);
               st1 = st\<lparr>redis := db\<rparr>;
               st2 = (if stored then st1 else st1\<lparr>memories := memories st1 @ [m]\<rparr>)
           in (Inr (TextContent (addedText u (id m))), st2)))"

definition matchesQuery :: "language \<Rightarrow> string \<Rightarrow> string \<Rightarrow> bool" where
  "matchesQuery L query c = includes_str (toLowerCase L c) (toLowerCase L query)"

definition toHit :: "Memory \<Rightarrow> search_hit" where
  "toHit m = \<lparr>hit_id = id m, hit_content = content m, hit_timestamp = timestamp m\<rparr>"

text \<open>The loop over \<^verbatim>\<open>memoryIds\<close>; \<^verbatim>\<open>n\<close> counts the \<^verbatim>\<open>get\<close> commands sent so far.\<close>

fun collectHits ::
  "language \<Rightarrow> env \<Rightarrow> redis_db \<Rightarrow> string \<Rightarrow> string \<Rightarrow> nat \<Rightarrow> string list \<Rightarrow>
     redis_error + search_hit list" where
  "collectHits L e db u query n [] = Inr []"
| "collectHits L e db u query n (i # is) =
     (case redis_get (get_ok e n) (memoryKey u i) db of
        Inl err \<Rightarrow> Inl err
      | Inr None \<Rightarrow> collectHits L e db u query (Suc n) is
      | Inr (Some m) \<Rightarrow>
          (case collectHits L e db u query (Suc n) is of
             Inl err \<Rightarrow> Inl err
           | Inr hs \<Rightarrow> Inr (if matchesQuery L query (content m) then toHit m # hs else hs)))"

definition hitsByTimestampDesc :: "search_hit \<Rightarrow> search_hit \<Rightarrow> int" where
  "hitsByTimestampDesc a b = hit_timestamp b - hit_timestamp a"

definition byTimestampDesc :: "Memory \<Rightarrow> Memory \<Rightarrow> int" where
  "byTimestampDesc a b = timestamp b - timestamp a"

text \<open>The \<^verbatim>\<open>try\<close> block of \<^verbatim>\<open>searchMemories\<close>.\<close>

definition searchStore ::
  "language \<Rightarrow> env \<Rightarrow> redis_db \<Rightarrow> string \<Rightarrow> string \<Rightarrow> redis_error + search_hit list" where
  "searchStore L e db query u =
     (case redis_zrevrange (zrevrange_ok e) (indexKey u) 0 99 db of
        Inl err \<Rightarrow> Inl err
      | Inr memoryIds \<Rightarrow>
          (case collectHits L e db u query 0 memoryIds of
             Inl err \<Rightarrow> Inl err
           | Inr hs \<Rightarrow> Inr (slice (js_sort hitsByTimestampDesc hs) 0 10)))"

text \<open>
  The filter, sort and cut of the fallback search (also the whole search of the server
  without a store), on the memories of one user.
\<close>

definition rankMemories :: "language \<Rightarrow> Memory list \<Rightarrow> string \<Rightarrow> Memory list" where
  "rankMemories L userMemories query =
     slice (js_sort byTimestampDesc
              (filter (\<lambda>memory. matchesQuery L query (content memory)) userMemories)) 0 10"

text \<open>The \<^verbatim>\<open>catch\<close> block of \<^verbatim>\<open>searchMemories\<close>.\<close>

definition searchFallback :: "language \<Rightarrow> Memory list \<Rightarrow> string \<Rightarrow> string \<Rightarrow> search_hit list" where
  "searchFallback L mems query u =
     map toHit (rankMemories L (filter (\<lambda>m. userId m = u) mems) query)"

definition searchResults ::
  "language \<Rightarrow> env \<Rightarrow> server_state \<Rightarrow> string \<Rightarrow> string \<Rightarrow> search_hit list" where
  "searchResults L e st query u =
     (case searchStore L e (redis st) query u of
        Inr results \<Rightarrow> results
      | Inl err \<Rightarrow> searchFallback L (memories st) query u)"

text \<open>The text of the answer.\<close>

definition hitLine :: "language \<Rightarrow> nat \<times> search_hit \<Rightarrow> string" where
  "hitLine L p =
     showNat (fst p + 1) @ ''. ['' @ toISOString L (hit_timestamp (snd p)) @ ''] ''
       @ hit_content (snd p)"

definition foundText :: "language \<Rightarrow> string \<Rightarrow> search_hit list \<Rightarrow> string" where
  "foundText L query results =
     ''Found '' @ showNat (length results) @ '' memories for query '' @ [CHR 0x22] @ query
       @ [CHR 0x22] @ '':'' @ [CHR 0x0A, CHR 0x0A]
       @ join [CHR 0x0A] (map (hitLine L) (enumerate 0 results))"

definition searchMemories ::
  "language \<Rightarrow> env \<Rightarrow> jsval \<Rightarrow> server_state \<Rightarrow> (error + tool_result) \<times> server_state" where
  "searchMemories L e args st =
     (case zObject2 ''query'' args of
        Inl err \<Rightarrow> (Inl err, st)
      | Inr (query, u) \<Rightarrow>
          (Inr (TextContent (foundText L query (searchResults L e st query u))), st))"

text \<open>
  The handler of \<^verbatim>\<open>tools/call\<close>: an \<^verbatim>\<open>McpError\<close> is thrown again as it is, any other
  error is wrapped as an \<^verbatim>\<open>InternalError\<close>. The text of the wrapped error is the
  language's rendering of it and is kept short here.
\<close>

fun errorText :: "error \<Rightarrow> string" where
  "errorText (ZodError issues) = ''ZodError''"
| "errorText (McpError code msg) = ''McpError: '' @ msg"

definition wrapError :: "(error + tool_result) \<times> 's \<Rightarrow> (error + tool_result) \<times> 's" where
  "wrapError r =
     (case fst r of
        Inr v \<Rightarrow> r
      | Inl (McpError code msg) \<Rightarrow> r
      | Inl err \<Rightarrow> (Inl (McpError InternalError (''Tool execution failed: '' @ errorText err)), snd r))"

definition callTool ::
  "language \<Rightarrow> env \<Rightarrow> string \<Rightarrow> jsval \<Rightarrow> server_state \<Rightarrow> (error + tool_result) \<times> server_state" where
  "callTool L e name args st =
     wrapError
       (if name = ''add-memory'' then addMemory e args st
        else if name = ''search-memories'' then searchMemories L e args st
        else (Inl (McpError MethodNotFound (''Unknown tool: '' @ name)), st))"

section \<open>The server without a store\<close>

text \<open>
  \<^verbatim>\<open>src/index.ts\<close> keeps every memory in the array. Its state is the array alone.
\<close>

definition addMemory_mem :: "env \<Rightarrow> jsval \<Rightarrow> Memory list \<Rightarrow> (error + tool_result) \<times> Memory list" where
  "addMemory_mem e args mems =
     (case zObject2 ''content'' args of
        Inl err \<Rightarrow> (Inl err, mems)
      | Inr (c, u) \<Rightarrow>
          (let m = newMemory e c u
           in (Inr (TextContent (addedText u (id m))), mems @ [m])))"

definition searchMemories_mem ::
  "language \<Rightarrow> jsval \<Rightarrow> Memory list \<Rightarrow> (error + tool_result) \<times> Memory list" where
  "searchMemories_mem L args mems =
     (case zObject2 ''query'' args of
        Inl err \<Rightarrow> (Inl err, mems)
      | Inr (query, u) \<Rightarrow>
          (Inr (TextContent (foundText L query (searchFallback L mems query u))), mems))"

definition callTool_mem ::
  "language \<Rightarrow> env \<Rightarrow> string \<Rightarrow> jsval \<Rightarrow> Memory list \<Rightarrow> (error + tool_result) \<times> Memory list" where
  "callTool_mem L e name args mems =
     wrapError
       (if name = ''add-memory'' then addMemory_mem e args mems
        else if name = ''search-memories'' then searchMemories_mem L args mems
        else (Inl (McpError MethodNotFound (''Unknown tool: '' @ name)), mems))"

section \<open>Notions used in the statements\<close>

text \<open>The error code with which a call fails at the protocol boundary, if it fails.\<close>

fun errorCodeOf :: "error + tool_result \<Rightarrow> ErrorCode option" where
  "errorCodeOf (Inl (McpError code msg)) = Some code"
| "errorCodeOf r = None"

text \<open>The state of a server that has just started, in front of an empty store.\<close>

definition initialState :: server_state where
  "initialState = \<lparr>memories = [], redis = Map.empty\<rparr>"

text \<open>
  Arguments the schema accepts, with the two values it yields: an object whose required
  field is the string \<open>c\<close> and whose \<^verbatim>\<open>userId\<close> is the string \<open>u\<close>, or is absent
  when \<open>u\<close> is the default.
\<close>

fun validArgs :: "string \<Rightarrow> jsval \<Rightarrow> string \<Rightarrow> string \<Rightarrow> bool" where
  "validArgs field (JObj props) c u =
     (getProp props field = JStr c \<and>
      (getProp props ''userId'' = JStr u \<or>
       (getProp props ''userId'' = JUndefined \<and> u = ''quinn_may'')))"
| "validArgs field v c u = False"

fun isStr :: "jsval \<Rightarrow> bool" where
  "isStr (JStr s) = True"
| "isStr v = False"

text \<open>
  Malformed arguments: not an object, or the required field missing or not a string, or a
  \<^verbatim>\<open>userId\<close> that is present and not a string.
\<close>

fun malformedArgs :: "string \<Rightarrow> jsval \<Rightarrow> bool" where
  "malformedArgs field (JObj props) =
     (\<not> isStr (getProp props field) \<or>
      (getProp props ''userId'' \<noteq> JUndefined \<and> \<not> isStr (getProp props ''userId'')))"
| "malformedArgs field v = True"

text \<open>The index key of a user does not hold a string value, so \<^verbatim>\<open>zadd\<close> can write it.\<close>

definition indexWritable :: "redis_db \<Rightarrow> string \<Rightarrow> bool" where
  "indexWritable db u = (case db (indexKey u) of Some (RString v) \<Rightarrow> False | _ \<Rightarrow> True)"

text \<open>
  The texts \<^verbatim>\<open>toString(36)\<close> gives for a number of the interval from 0 to 1, 1 excluded:
  \<^verbatim>\<open>0\<close>, or \<^verbatim>\<open>0.\<close> and digits among \<^verbatim>\<open>0-9a-z\<close>. One half is \<^verbatim>\<open>0.i\<close>.
\<close>

definition isBase36Digit :: "char \<Rightarrow> bool" where
  "isBase36Digit c =
     (let n = (of_char c :: nat) in (48 \<le> n \<and> n \<le> 57) \<or> (97 \<le> n \<and> n \<le> 122))"

definition isRadix36Text :: "string \<Rightarrow> bool" where
  "isRadix36Text s =
     (s = ''0'' \<or> (take 2 s = ''0.'' \<and> drop 2 s \<noteq> [] \<and> list_all isBase36Digit (drop 2 s)))"

text \<open>
  The candidates of the store path: the ids the index of the user yields, highest score
  first and at most 100, and the records found under their keys, in that order.
\<close>

definition indexIds :: "redis_db \<Rightarrow> string \<Rightarrow> string list" where
  "indexIds db u =
     (case db (indexKey u) of Some (RZSet zs) \<Rightarrow> take 100 (rev (map fst zs)) | _ \<Rightarrow> [])"

definition resolve :: "redis_db \<Rightarrow> string \<Rightarrow> string list \<Rightarrow> Memory list" where
  "resolve db u ids =
     concat (map (\<lambda>i. case db (memoryKey u i) of Some (RString m) \<Rightarrow> [m] | _ \<Rightarrow> []) ids)"

text \<open>The content, in lower case, has the query, in lower case, as a substring.\<close>

definition containsFolded :: "language \<Rightarrow> string \<Rightarrow> Memory \<Rightarrow> bool" where
  "containsFolded L query m =
     (\<exists>pre suf. toLowerCase L (content m) = pre @ toLowerCase L query @ suf)"

text \<open>
  On ASCII text \<^verbatim>\<open>toLowerCase\<close> turns the letters A to Z into a to z and keeps every
  other character. The examples, whose texts are all ASCII, take this function for the
  case folding; no statement other than an example uses it.
\<close>

definition asciiLowerChar :: "char \<Rightarrow> char" where
  "asciiLowerChar c =
     (let n = (of_char c :: nat) in if 65 \<le> n \<and> n \<le> 90 then char_of (n + 32) else c)"

definition asciiLower :: "string \<Rightarrow> string" where
  "asciiLower s = map asciiLowerChar s"

text \<open>
  A run of the server: the calls of \<^verbatim>\<open>tools/call\<close> one after the other, each with
  what it takes from outside.
\<close>

record tool_call =
  call_env :: env
  call_name :: string
  call_args :: jsval

fun run :: "language \<Rightarrow> tool_call list \<Rightarrow> server_state \<Rightarrow> server_state" where
  "run L [] st = st"
| "run L (c # cs) st =
     run L cs (snd (callTool L (call_env c) (call_name c) (call_args c) st))"

text \<open>The call records a memory under the user \<open>u\<close>.\<close>

definition recordsFor :: "string \<Rightarrow> tool_call \<Rightarrow> bool" where
  "recordsFor u c =
     (call_name c = ''add-memory'' \<and>
      (case zObject2 ''content'' (call_args c) of Inr (x, u') \<Rightarrow> u' = u | Inl err \<Rightarrow> False))"

text \<open>
  No member of a sorted set of the store has a colon in it; so it is in a store that only
  this server has written, whose members are ids.
\<close>

definition idsColonFree :: "redis_db \<Rightarrow> bool" where
  "idsColonFree db = (\<forall>k zs. db k = Some (RZSet zs) \<longrightarrow> (\<forall>z \<in> set zs. CHR '':'' \<notin> set (fst z)))"

definition allIds :: "redis_db \<Rightarrow> string \<Rightarrow> string list" where
  "allIds db u = (case db (indexKey u) of Some (RZSet zs) \<Rightarrow> map fst zs | _ \<Rightarrow> [])"

text \<open>
  Two states hold the same for the user \<open>u\<close>: the same elements of the array with that
  user id, the same index, and the same records under the ids of the index.
\<close>

definition sameView :: "string \<Rightarrow> server_state \<Rightarrow> server_state \<Rightarrow> bool" where
  "sameView u st st' =
     (filter (\<lambda>m. userId m = u) (memories st) = filter (\<lambda>m. userId m = u) (memories st') \<and>
      redis st (indexKey u) = redis st' (indexKey u) \<and>
      (\<forall>i \<in> set (allIds (redis st) u). redis st (memoryKey u i) = redis st' (memoryKey u i)))"

section \<open>Validation\<close>

lemma zString_Inr: "zString p v = Inr s \<longleftrightarrow> v = JStr s"
  by (cases v) auto

lemma zStringDefault_Inr:
  "zStringDefault d p v = Inr s \<longleftrightarrow> (v = JStr s \<or> (v = JUndefined \<and> s = d))"
  by (cases v) auto

lemma zObject2_valid: "zObject2 field args = Inr (c, u) \<longleftrightarrow> validArgs field args c u"
proof (cases args)
  case (JObj props)
  show ?thesis
    unfolding JObj
    by (auto simp: zString_Inr zStringDefault_Inr split: sum.splits)
qed simp_all

lemma zObject2_malformed:
  "malformedArgs field args \<longleftrightarrow> (\<exists>issues. zObject2 field args = Inl (ZodError issues))"
proof (cases args)
  case (JObj props)
  show ?thesis
    unfolding JObj
    apply (cases "getProp props field"; cases "getProp props ''userId''")
    apply (auto split: sum.splits)
    done
qed simp_all

lemma malformed_not_valid: "malformedArgs field args \<longleftrightarrow> (\<forall>c u. \<not> validArgs field args c u)"
proof (cases args)
  case (JObj props)
  show ?thesis
    unfolding JObj
    by (cases "getProp props field"; cases "getProp props ''userId''") auto
qed simp_all

section \<open>Writing a memory\<close>

lemma key_distinct: "memoryKey u i \<noteq> indexKey v" "indexKey v \<noteq> memoryKey u i"
  by (simp_all add: memoryKey_def indexKey_def)

lemma set_zInsert: "set (zInsert e zs) = insert e (set zs)"
  by (induction zs) auto

lemma newMemory_sel [simp]:
  "id (newMemory e c u) = newId e" "content (newMemory e c u) = c"
  "userId (newMemory e c u) = u" "timestamp (newMemory e c u) = newDate e"
  by (simp_all add: newMemory_def)

lemma storeMemory_set_fails:
  "\<not> set_ok e \<Longrightarrow> storeMemory e m db = (db, False)"
  by (simp add: storeMemory_def redis_set_def)

lemma storeMemory_zadd_fails:
  "set_ok e \<Longrightarrow> \<not> (zadd_ok e \<and> indexWritable db (userId m)) \<Longrightarrow>
     storeMemory e m db = (db(memoryKey (userId m) (id m) \<mapsto> RString m), False)"
  by (auto simp: storeMemory_def redis_set_def redis_zadd_def indexWritable_def key_distinct
      split: option.splits redis_val.splits)

lemma storeMemory_ok:
  "set_ok e \<Longrightarrow> zadd_ok e \<Longrightarrow> indexWritable db (userId m) \<Longrightarrow>
     \<exists>zs. storeMemory e m db =
       (db(memoryKey (userId m) (id m) \<mapsto> RString m, indexKey (userId m) \<mapsto> RZSet zs), True)
       \<and> (id m, dateNow e) \<in> set zs"
  by (auto simp: storeMemory_def redis_set_def redis_zadd_def indexWritable_def key_distinct
      set_zInsert split: option.splits redis_val.splits)

lemma addMemory_valid:
  "validArgs ''content'' args c u \<Longrightarrow>
     addMemory e args st =
       (Inr (TextContent (addedText u (newId e))),
        (if snd (storeMemory e (newMemory e c u) (redis st))
         then st\<lparr>redis := fst (storeMemory e (newMemory e c u) (redis st))\<rparr>
         else st\<lparr>redis := fst (storeMemory e (newMemory e c u) (redis st)),
                 memories := memories st @ [newMemory e c u]\<rparr>))"
  by (simp add: addMemory_def zObject2_valid[symmetric] Let_def case_prod_beta)

lemma addMemory_invalid:
  "zObject2 ''content'' args = Inl err \<Longrightarrow> addMemory e args st = (Inl err, st)"
  by (simp add: addMemory_def)

lemma addMemory_home:
  assumes "validArgs ''content'' args c u"
  shows "redis (snd (addMemory e args st)) (memoryKey u (newId e)) = Some (RString (newMemory e c u)) \<or>
         memories (snd (addMemory e args st)) = memories st @ [newMemory e c u]"
proof -
  note v = addMemory_valid [OF assms, of e st]
  show ?thesis
  proof (cases "set_ok e")
    case False
    then show ?thesis by (simp add: v storeMemory_set_fails)
  next
    case True
    show ?thesis
    proof (cases "zadd_ok e \<and> indexWritable (redis st) u")
      case False
      with True show ?thesis
        using storeMemory_zadd_fails [where e = e and m = "newMemory e c u" and db = "redis st"]
        by (simp add: v)
    next
      case ok: True
      with True show ?thesis
        using storeMemory_ok [where e = e and m = "newMemory e c u" and db = "redis st"]
        by (auto simp: v key_distinct)
    qed
  qed
qed

lemma searchMemories_state: "snd (searchMemories L e args st) = st"
  by (simp add: searchMemories_def split: sum.splits prod.splits)

lemma snd_wrapError: "snd (wrapError r) = snd r"
  by (cases r) (auto simp: wrapError_def split: sum.splits error.splits)

lemma memories_addMemory:
  "memories (snd (addMemory e args st)) = memories st \<or>
   (\<exists>m. memories (snd (addMemory e args st)) = memories st @ [m])"
  by (auto simp: addMemory_def Let_def case_prod_beta split: sum.splits)

lemma callTool_malformed_add:
  assumes "malformedArgs ''content'' args"
  shows "errorCodeOf (fst (callTool L e ''add-memory'' args st)) = Some InternalError \<and>
         snd (callTool L e ''add-memory'' args st) = st"
proof -
  from assms obtain issues where z: "zObject2 ''content'' args = Inl (ZodError issues)"
    using zObject2_malformed by blast
  then have "addMemory e args st = (Inl (ZodError issues), st)"
    by (rule addMemory_invalid)
  then show ?thesis
    by (simp add: callTool_def wrapError_def)
qed

lemma callTool_malformed_search:
  assumes "malformedArgs ''query'' args"
  shows "errorCodeOf (fst (callTool L e ''search-memories'' args st)) = Some InternalError \<and>
         snd (callTool L e ''search-memories'' args st) = st"
proof -
  from assms obtain issues where z: "zObject2 ''query'' args = Inl (ZodError issues)"
    using zObject2_malformed by blast
  then have "searchMemories L e args st = (Inl (ZodError issues), st)"
    by (simp add: searchMemories_def)
  then show ?thesis
    by (simp add: callTool_def wrapError_def)
qed

lemma callTool_mem_malformed_add:
  assumes "malformedArgs ''content'' args"
  shows "errorCodeOf (fst (callTool_mem L e ''add-memory'' args mems)) = Some InternalError \<and>
         snd (callTool_mem L e ''add-memory'' args mems) = mems"
proof -
  from assms obtain issues where z: "zObject2 ''content'' args = Inl (ZodError issues)"
    using zObject2_malformed by blast
  then have "addMemory_mem e args mems = (Inl (ZodError issues), mems)"
    by (simp add: addMemory_mem_def)
  then show ?thesis
    by (simp add: callTool_mem_def wrapError_def)
qed

lemma callTool_mem_malformed_search:
  assumes "malformedArgs ''query'' args"
  shows "errorCodeOf (fst (callTool_mem L e ''search-memories'' args mems)) = Some InternalError \<and>
         snd (callTool_mem L e ''search-memories'' args mems) = mems"
proof -
  from assms obtain issues where z: "zObject2 ''query'' args = Inl (ZodError issues)"
    using zObject2_malformed by blast
  then have "searchMemories_mem L args mems = (Inl (ZodError issues), mems)"
    by (simp add: searchMemories_mem_def)
  then show ?thesis
    by (simp add: callTool_mem_def wrapError_def)
qed

section \<open>Claims about adding a memory\<close>

text \<open>
  C1, as the code has it. The durable writes are two commands inside one \<^verbatim>\<open>try\<close>
  block, and the \<^verbatim>\<open>catch\<close> block appends to the array whichever of them failed. When
  the record write is rejected, the record is in the array only and the store is as it
  was. When both writes are answered, the record is in the store only, under its key and
  in the index of its user. When the record write is answered and the index write is not,
  the record is both under its key in the store and in the array.
\<close>

theorem addMemory_backends:
  assumes "validArgs ''content'' args c u"
  shows "(\<not> set_ok e \<longrightarrow>
            memories (snd (addMemory e args st)) = memories st @ [newMemory e c u] \<and>
            redis (snd (addMemory e args st)) = redis st) \<and>
         (set_ok e \<and> zadd_ok e \<and> indexWritable (redis st) u \<longrightarrow>
            memories (snd (addMemory e args st)) = memories st \<and>
            redis (snd (addMemory e args st)) (memoryKey u (newId e)) =
              Some (RString (newMemory e c u)) \<and>
            (\<exists>zs. redis (snd (addMemory e args st)) (indexKey u) = Some (RZSet zs) \<and>
                  (newId e, dateNow e) \<in> set zs)) \<and>
         (set_ok e \<and> \<not> (zadd_ok e \<and> indexWritable (redis st) u) \<longrightarrow>
            memories (snd (addMemory e args st)) = memories st @ [newMemory e c u] \<and>
            redis (snd (addMemory e args st)) =
              (redis st)(memoryKey u (newId e) \<mapsto> RString (newMemory e c u)))"
proof -
  note v = addMemory_valid [OF assms, of e st]
  have a: "\<not> set_ok e \<Longrightarrow>
            memories (snd (addMemory e args st)) = memories st @ [newMemory e c u] \<and>
            redis (snd (addMemory e args st)) = redis st"
    by (simp add: v storeMemory_set_fails)
  have b: "set_ok e \<Longrightarrow> zadd_ok e \<Longrightarrow> indexWritable (redis st) u \<Longrightarrow>
            memories (snd (addMemory e args st)) = memories st \<and>
            redis (snd (addMemory e args st)) (memoryKey u (newId e)) =
              Some (RString (newMemory e c u)) \<and>
            (\<exists>zs. redis (snd (addMemory e args st)) (indexKey u) = Some (RZSet zs) \<and>
                  (newId e, dateNow e) \<in> set zs)"
    using storeMemory_ok [where e = e and m = "newMemory e c u" and db = "redis st"]
    by (auto simp: v key_distinct)
  have c: "set_ok e \<Longrightarrow> \<not> (zadd_ok e \<and> indexWritable (redis st) u) \<Longrightarrow>
            memories (snd (addMemory e args st)) = memories st @ [newMemory e c u] \<and>
            redis (snd (addMemory e args st)) =
              (redis st)(memoryKey u (newId e) \<mapsto> RString (newMemory e c u))"
    using storeMemory_zadd_fails [where e = e and m = "newMemory e c u" and db = "redis st"]
    by (simp add: v)
  from a b c show ?thesis by blast
qed

theorem addMemory_backends_witness:
  "validArgs ''content'' (JObj [(''content'', JStr ''note''), (''userId'', JStr ''u1'')]) ''note'' ''u1'' \<and>
   memories (snd (addMemory
       \<lparr>random36 = ''0.4fzyo82mvyr'', newDate = 1000, dateNow = 1001, set_ok = True,
        zadd_ok = True, zrevrange_ok = True, get_ok = (\<lambda>n. True)\<rparr>
       (JObj [(''content'', JStr ''note''), (''userId'', JStr ''u1'')]) initialState)) = [] \<and>
   redis (snd (addMemory
       \<lparr>random36 = ''0.4fzyo82mvyr'', newDate = 1000, dateNow = 1001, set_ok = True,
        zadd_ok = True, zrevrange_ok = True, get_ok = (\<lambda>n. True)\<rparr>
       (JObj [(''content'', JStr ''note''), (''userId'', JStr ''u1'')]) initialState))
     ''memory:u1:4fzyo82mvyr'' =
     Some (RString \<lparr>id = ''4fzyo82mvyr'', content = ''note'', userId = ''u1'', timestamp = 1000\<rparr>)"
proof -
  have h: "validArgs ''content'' (JObj [(''content'', JStr ''note''), (''userId'', JStr ''u1'')])
      ''note'' ''u1''"
    by (simp add: getProp_def)
  show ?thesis
    using h addMemory_backends [OF h,
      of "\<lparr>random36 = ''0.4fzyo82mvyr'', newDate = 1000, dateNow = 1001, set_ok = True,
           zadd_ok = True, zrevrange_ok = True, get_ok = (\<lambda>n. True)\<rparr>" initialState]
    by (simp add: indexWritable_def initialState_def indexKey_def memoryKey_def newId_def
        substring_def newMemory_def)
qed

theorem addMemory_both_backends_counterexample:
  "redis (snd (addMemory
       \<lparr>random36 = ''0.i'', newDate = 1000, dateNow = 1001, set_ok = True,
        zadd_ok = False, zrevrange_ok = True, get_ok = (\<lambda>n. True)\<rparr>
       (JObj [(''content'', JStr ''note'')]) initialState)) ''memory:quinn_may:i'' =
     Some (RString \<lparr>id = ''i'', content = ''note'', userId = ''quinn_may'', timestamp = 1000\<rparr>) \<and>
   memories (snd (addMemory
       \<lparr>random36 = ''0.i'', newDate = 1000, dateNow = 1001, set_ok = True,
        zadd_ok = False, zrevrange_ok = True, get_ok = (\<lambda>n. True)\<rparr>
       (JObj [(''content'', JStr ''note'')]) initialState)) =
     [\<lparr>id = ''i'', content = ''note'', userId = ''quinn_may'', timestamp = 1000\<rparr>]"
  by (simp add: addMemory_def getProp_def storeMemory_def redis_set_def redis_zadd_def
      newMemory_def newId_def substring_def memoryKey_def initialState_def Let_def)

text \<open>
  C6: for arguments the schema accepts, \<^verbatim>\<open>addMemory\<close> and the \<^verbatim>\<open>tools/call\<close>
  handler return the confirmation text, which ends with the id of the new memory,
  whatever the store answers to the two writes; the new memory is then under its key in
  the store or at the end of the array.
\<close>

theorem addMemory_always_succeeds:
  assumes "validArgs ''content'' args c u"
  shows "fst (addMemory e args st) =
           Inr (TextContent (''Memory added successfully for user '' @ u @ ''. Memory ID: ''
                               @ id (newMemory e c u))) \<and>
         fst (callTool L e ''add-memory'' args st) = fst (addMemory e args st) \<and>
         (redis (snd (addMemory e args st)) (memoryKey u (newId e)) =
            Some (RString (newMemory e c u)) \<or>
          memories (snd (addMemory e args st)) = memories st @ [newMemory e c u])"
proof -
  note v = addMemory_valid [OF assms, of e st]
  have a: "fst (addMemory e args st) =
           Inr (TextContent (''Memory added successfully for user '' @ u @ ''. Memory ID: ''
                               @ id (newMemory e c u)))"
    by (simp add: v addedText_def)
  have b: "fst (callTool L e ''add-memory'' args st) = fst (addMemory e args st)"
    using a by (cases "addMemory e args st") (simp add: callTool_def wrapError_def)
  from a b addMemory_home [OF assms, of e st] show ?thesis by blast
qed

theorem addMemory_always_succeeds_witness:
  "validArgs ''content'' (JObj [(''content'', JStr ''note'')]) ''note'' ''quinn_may'' \<and>
   fst (callTool \<lparr>toLowerCase = asciiLower, toISOString = (\<lambda>t. ''T'')\<rparr>
       \<lparr>random36 = ''0.4fzyo82mvyr'', newDate = 1000, dateNow = 1001, set_ok = False,
        zadd_ok = False, zrevrange_ok = False, get_ok = (\<lambda>n. False)\<rparr>
       ''add-memory'' (JObj [(''content'', JStr ''note'')]) initialState) =
     Inr (TextContent ''Memory added successfully for user quinn_may. Memory ID: 4fzyo82mvyr'')"
proof -
  have h: "validArgs ''content'' (JObj [(''content'', JStr ''note'')]) ''note'' ''quinn_may''"
    by (simp add: getProp_def)
  show ?thesis
    using h addMemory_always_succeeds [OF h,
      of "\<lparr>random36 = ''0.4fzyo82mvyr'', newDate = 1000, dateNow = 1001, set_ok = False,
           zadd_ok = False, zrevrange_ok = False, get_ok = (\<lambda>n. False)\<rparr>"
         initialState "\<lparr>toLowerCase = asciiLower, toISOString = (\<lambda>t. ''T'')\<rparr>"]
    by (simp add: newId_def substring_def)
qed

text \<open>
  C9: when the arguments are an object without a \<^verbatim>\<open>content\<close> property, \<^verbatim>\<open>addMemory\<close>
  fails, and so does the \<^verbatim>\<open>tools/call\<close> handler; the array and the store are as before
  the call. The same holds for the server without a store.
\<close>

theorem addMemory_without_content:
  assumes "map_of props ''content'' = None"
  shows "(\<exists>err. addMemory e (JObj props) st = (Inl err, st)) \<and>
         (\<exists>err. callTool L e ''add-memory'' (JObj props) st = (Inl err, st)) \<and>
         (\<exists>err. addMemory_mem e (JObj props) mems = (Inl err, mems)) \<and>
         (\<exists>err. callTool_mem L e ''add-memory'' (JObj props) mems = (Inl err, mems))"
proof -
  from assms have "getProp props ''content'' = JUndefined"
    by (simp add: getProp_def)
  then have "malformedArgs ''content'' (JObj props)"
    by simp
  then obtain issues where z: "zObject2 ''content'' (JObj props) = Inl (ZodError issues)"
    using zObject2_malformed by blast
  have a: "addMemory e (JObj props) st = (Inl (ZodError issues), st)"
    using z by (rule addMemory_invalid)
  have b: "\<exists>err. callTool L e ''add-memory'' (JObj props) st = (Inl err, st)"
    by (simp add: callTool_def wrapError_def a)
  have c: "addMemory_mem e (JObj props) mems = (Inl (ZodError issues), mems)"
    using z by (simp add: addMemory_mem_def)
  have d: "\<exists>err. callTool_mem L e ''add-memory'' (JObj props) mems = (Inl err, mems)"
    by (simp add: callTool_mem_def wrapError_def c)
  from a b c d show ?thesis by blast
qed

theorem addMemory_without_content_witness:
  "map_of [(''userId'', JStr ''u1'')] ''content'' = None \<and>
   addMemory
       \<lparr>random36 = ''0.4fzyo82mvyr'', newDate = 1000, dateNow = 1001, set_ok = True,
        zadd_ok = True, zrevrange_ok = True, get_ok = (\<lambda>n. True)\<rparr>
       (JObj [(''userId'', JStr ''u1'')]) initialState =
     (Inl (ZodError [InvalidType [''content'']]), initialState)"
proof -
  have h: "map_of [(''userId'', JStr ''u1'')] ''content'' = None"
    by simp
  show ?thesis
    using h addMemory_without_content [OF h,
      of "\<lparr>random36 = ''0.4fzyo82mvyr'', newDate = 1000, dateNow = 1001, set_ok = True,
           zadd_ok = True, zrevrange_ok = True, get_ok = (\<lambda>n. True)\<rparr>" initialState]
    by (simp add: addMemory_def getProp_def)
qed

text \<open>
  C10: a call of the \<^verbatim>\<open>tools/call\<close> handler, whatever the tool name, the arguments and
  the answers of the store, leaves the array as it was or with one more element at its
  end; a call of \<^verbatim>\<open>search-memories\<close> leaves the whole state as it was. The same holds
  for the server without a store. (The sort of the search works on the array the filter
  has made, not on the stored one.)
\<close>

theorem fallback_append_only:
  "(memories (snd (callTool L e name args st)) = memories st \<or>
    (\<exists>m. memories (snd (callTool L e name args st)) = memories st @ [m])) \<and>
   snd (callTool L e ''search-memories'' args st) = st \<and>
   (snd (callTool_mem L e name args mems) = mems \<or>
    (\<exists>m. snd (callTool_mem L e name args mems) = mems @ [m])) \<and>
   snd (callTool_mem L e ''search-memories'' args mems) = mems"
proof -
  have a: "memories (snd (callTool L e name args st)) = memories st \<or>
    (\<exists>m. memories (snd (callTool L e name args st)) = memories st @ [m])"
    using memories_addMemory [of e args st]
    by (simp add: callTool_def snd_wrapError searchMemories_state)
  have b: "snd (callTool L e ''search-memories'' args st) = st"
    by (simp add: callTool_def snd_wrapError searchMemories_state)
  have s: "snd (searchMemories_mem L args mems) = mems"
    by (simp add: searchMemories_mem_def split: sum.splits prod.splits)
  have "snd (addMemory_mem e args mems) = mems \<or>
    (\<exists>m. snd (addMemory_mem e args mems) = mems @ [m])"
    by (auto simp: addMemory_mem_def Let_def split: sum.splits)
  then have c: "snd (callTool_mem L e name args mems) = mems \<or>
    (\<exists>m. snd (callTool_mem L e name args mems) = mems @ [m])"
    by (simp add: callTool_mem_def snd_wrapError s)
  have d: "snd (callTool_mem L e ''search-memories'' args mems) = mems"
    by (simp add: callTool_mem_def snd_wrapError s)
  from a b c d show ?thesis by blast
qed

theorem fallback_append_only_witness:
  "memories (snd (callTool \<lparr>toLowerCase = asciiLower, toISOString = (\<lambda>t. ''T'')\<rparr>
       \<lparr>random36 = ''0.4fzyo82mvyr'', newDate = 1000, dateNow = 1001, set_ok = False,
        zadd_ok = False, zrevrange_ok = False, get_ok = (\<lambda>n. False)\<rparr>
       ''add-memory'' (JObj [(''content'', JStr ''note'')]) initialState)) =
     memories initialState @
       [\<lparr>id = ''4fzyo82mvyr'', content = ''note'', userId = ''quinn_may'', timestamp = 1000\<rparr>]"
  using fallback_append_only [of "\<lparr>toLowerCase = asciiLower, toISOString = (\<lambda>t. ''T'')\<rparr>"
      "\<lparr>random36 = ''0.4fzyo82mvyr'', newDate = 1000, dateNow = 1001, set_ok = False,
        zadd_ok = False, zrevrange_ok = False, get_ok = (\<lambda>n. False)\<rparr>"
      "''add-memory''" "JObj [(''content'', JStr ''note'')]" initialState]
  by (simp add: callTool_def wrapError_def addMemory_def getProp_def storeMemory_def
      redis_set_def newMemory_def newId_def substring_def initialState_def Let_def)

section \<open>Claims about validation\<close>

text \<open>
  C3, as the code has it. The schema check throws an error that is not an
  \<^verbatim>\<open>McpError\<close>, and the handler wraps every such error: a call of \<^verbatim>\<open>add-memory\<close> or
  \<^verbatim>\<open>search-memories\<close> with malformed arguments fails at the protocol boundary with an
  \<^verbatim>\<open>McpError\<close> of code \<^verbatim>\<open>InternalError\<close>, and the state is as before the call. The
  same holds for the server without a store.
\<close>

theorem malformed_arguments_internal_error:
  "(malformedArgs ''content'' args \<longrightarrow>
      errorCodeOf (fst (callTool L e ''add-memory'' args st)) = Some InternalError \<and>
      snd (callTool L e ''add-memory'' args st) = st \<and>
      errorCodeOf (fst (callTool_mem L e ''add-memory'' args mems)) = Some InternalError \<and>
      snd (callTool_mem L e ''add-memory'' args mems) = mems) \<and>
   (malformedArgs ''query'' args \<longrightarrow>
      errorCodeOf (fst (callTool L e ''search-memories'' args st)) = Some InternalError \<and>
      snd (callTool L e ''search-memories'' args st) = st \<and>
      errorCodeOf (fst (callTool_mem L e ''search-memories'' args mems)) = Some InternalError \<and>
      snd (callTool_mem L e ''search-memories'' args mems) = mems)"
  using callTool_malformed_add [of args L e st] callTool_malformed_search [of args L e st]
    callTool_mem_malformed_add [of args L e mems]
    callTool_mem_malformed_search [of args L e mems]
  by blast

theorem malformed_arguments_internal_error_witness:
  "malformedArgs ''content'' (JObj [(''content'', JNum 5)]) \<and>
   errorCodeOf (fst (callTool \<lparr>toLowerCase = asciiLower, toISOString = (\<lambda>t. ''T'')\<rparr>
       \<lparr>random36 = ''0.4fzyo82mvyr'', newDate = 1000, dateNow = 1001, set_ok = True,
        zadd_ok = True, zrevrange_ok = True, get_ok = (\<lambda>n. True)\<rparr>
       ''add-memory'' (JObj [(''content'', JNum 5)]) initialState)) = Some InternalError \<and>
   malformedArgs ''query'' JUndefined \<and>
   errorCodeOf (fst (callTool \<lparr>toLowerCase = asciiLower, toISOString = (\<lambda>t. ''T'')\<rparr>
       \<lparr>random36 = ''0.4fzyo82mvyr'', newDate = 1000, dateNow = 1001, set_ok = True,
        zadd_ok = True, zrevrange_ok = True, get_ok = (\<lambda>n. True)\<rparr>
       ''search-memories'' JUndefined initialState)) = Some InternalError"
proof -
  have h1: "malformedArgs ''content'' (JObj [(''content'', JNum 5)])"
    by (simp add: getProp_def)
  have h2: "malformedArgs ''query'' JUndefined"
    by simp
  show ?thesis
    using h1 h2
      malformed_arguments_internal_error [of "JObj [(''content'', JNum 5)]" "\<lparr>toLowerCase = asciiLower, toISOString = (\<lambda>t. ''T'')\<rparr>"
        "\<lparr>random36 = ''0.4fzyo82mvyr'', newDate = 1000, dateNow = 1001, set_ok = True,
          zadd_ok = True, zrevrange_ok = True, get_ok = (\<lambda>n. True)\<rparr>" initialState]
      malformed_arguments_internal_error [of JUndefined "\<lparr>toLowerCase = asciiLower, toISOString = (\<lambda>t. ''T'')\<rparr>"
        "\<lparr>random36 = ''0.4fzyo82mvyr'', newDate = 1000, dateNow = 1001, set_ok = True,
          zadd_ok = True, zrevrange_ok = True, get_ok = (\<lambda>n. True)\<rparr>" initialState]
    by simp
qed

theorem missing_content_internal_error_counterexample:
  "errorCodeOf (fst (callTool \<lparr>toLowerCase = asciiLower, toISOString = (\<lambda>t. ''T'')\<rparr>
       \<lparr>random36 = ''0.4fzyo82mvyr'', newDate = 1000, dateNow = 1001, set_ok = True,
        zadd_ok = True, zrevrange_ok = True, get_ok = (\<lambda>n. True)\<rparr>
       ''add-memory'' (JObj []) initialState)) = Some InternalError"
  by (simp add: callTool_def wrapError_def addMemory_def getProp_def)

text \<open>
  C5, as the code has it. The schema asks of the content that it be a string and nothing
  more: the add operation accepts only a string as content, and it accepts the empty
  string as it does every other; the memory that is stored carries the string it was
  given, so the content of a stored memory is a string, possibly the empty one.
\<close>

theorem addMemory_accepts_any_string:
  "((\<exists>r. fst (addMemory e args st) = Inr r) \<longrightarrow>
      (\<exists>props c. args = JObj props \<and> getProp props ''content'' = JStr c)) \<and>
   (validArgs ''content'' args c u \<longrightarrow>
      (\<exists>r. fst (addMemory e args st) = Inr r) \<and>
      content (newMemory e c u) = c \<and>
      (redis (snd (addMemory e args st)) (memoryKey u (newId e)) =
         Some (RString (newMemory e c u)) \<or>
       memories (snd (addMemory e args st)) = memories st @ [newMemory e c u]))"
proof -
  have a: "\<exists>props c. args = JObj props \<and> getProp props ''content'' = JStr c"
    if "\<exists>r. fst (addMemory e args st) = Inr r"
  proof -
    from that obtain c u where "zObject2 ''content'' args = Inr (c, u)"
      by (cases "zObject2 ''content'' args") (auto simp: addMemory_def)
    then have "validArgs ''content'' args c u"
      by (simp add: zObject2_valid)
    then show ?thesis
      by (cases args) auto
  qed
  have b: "\<exists>r. fst (addMemory e args st) = Inr r" if "validArgs ''content'' args c u"
    using addMemory_valid [OF that, of e st] by simp
  from a b addMemory_home [of args c u e st] show ?thesis by auto
qed

theorem addMemory_accepts_any_string_witness:
  "validArgs ''content'' (JObj [(''content'', JStr '''')]) '''' ''quinn_may'' \<and>
   memories (snd (addMemory
       \<lparr>random36 = ''0.4fzyo82mvyr'', newDate = 1000, dateNow = 1001, set_ok = False,
        zadd_ok = False, zrevrange_ok = False, get_ok = (\<lambda>n. False)\<rparr>
       (JObj [(''content'', JStr '''')]) initialState)) =
     [\<lparr>id = ''4fzyo82mvyr'', content = '''', userId = ''quinn_may'', timestamp = 1000\<rparr>]"
proof -
  have h: "validArgs ''content'' (JObj [(''content'', JStr '''')]) '''' ''quinn_may''"
    by (simp add: getProp_def)
  show ?thesis
    using h addMemory_accepts_any_string [of
        "\<lparr>random36 = ''0.4fzyo82mvyr'', newDate = 1000, dateNow = 1001, set_ok = False,
          zadd_ok = False, zrevrange_ok = False, get_ok = (\<lambda>n. False)\<rparr>"
        "JObj [(''content'', JStr '''')]" initialState "''''" "''quinn_may''"]
    by (simp add: addMemory_def getProp_def storeMemory_def redis_set_def Let_def
        initialState_def newMemory_def newId_def substring_def memoryKey_def)
qed

theorem empty_content_stored_counterexample:
  "fst (addMemory
       \<lparr>random36 = ''0.4fzyo82mvyr'', newDate = 1000, dateNow = 1001, set_ok = False,
        zadd_ok = False, zrevrange_ok = False, get_ok = (\<lambda>n. False)\<rparr>
       (JObj [(''content'', JStr '''')]) initialState) =
     Inr (TextContent ''Memory added successfully for user quinn_may. Memory ID: 4fzyo82mvyr'') \<and>
   map content (memories (snd (addMemory
       \<lparr>random36 = ''0.4fzyo82mvyr'', newDate = 1000, dateNow = 1001, set_ok = False,
        zadd_ok = False, zrevrange_ok = False, get_ok = (\<lambda>n. False)\<rparr>
       (JObj [(''content'', JStr '''')]) initialState))) = ['''']"
  by (simp add: addMemory_def getProp_def storeMemory_def redis_set_def newMemory_def
      newId_def substring_def initialState_def addedText_def Let_def)

section \<open>Claims about the identifier\<close>


lemma substring_2_15: "substring s 2 15 = take 13 (drop 2 s)"
  by (auto simp: substring_def Let_def min_def max_def)

lemma newId_base36: "isRadix36Text (random36 e) \<Longrightarrow> list_all isBase36Digit (newId e)"
  unfolding newId_def substring_2_15 isRadix36Text_def
  by (auto simp: list_all_iff dest: in_set_takeD)




section \<open>Searching\<close>

lemma startsWith_iff: "startsWith s q \<longleftrightarrow> (\<exists>suf. s = q @ suf)"
  by (induction s q rule: startsWith.induct) auto

lemma includes_str_iff: "includes_str s q \<longleftrightarrow> (\<exists>pre suf. s = pre @ q @ suf)"
proof (induction s)
  case Nil
  then show ?case by auto
next
  case (Cons c cs)
  show ?case
  proof
    assume "includes_str (c # cs) q"
    then consider "startsWith (c # cs) q" | "includes_str cs q" by auto
    then show "\<exists>pre suf. c # cs = pre @ q @ suf"
    proof cases
      case 1
      then obtain suf where "c # cs = q @ suf" by (auto simp: startsWith_iff)
      then have "c # cs = [] @ q @ suf" by simp
      then show ?thesis by blast
    next
      case 2
      with Cons.IH obtain pre suf where "cs = pre @ q @ suf" by blast
      then have "c # cs = (c # pre) @ q @ suf" by simp
      then show ?thesis by blast
    qed
  next
    assume "\<exists>pre suf. c # cs = pre @ q @ suf"
    then obtain pre suf where e: "c # cs = pre @ q @ suf" by blast
    show "includes_str (c # cs) q"
    proof (cases pre)
      case Nil
      with e have "startsWith (c # cs) q" by (auto simp: startsWith_iff)
      then show ?thesis by simp
    next
      case (Cons p ps)
      with e have "cs = ps @ q @ suf" by simp
      with Cons.IH have "includes_str cs q" by blast
      then show ?thesis by simp
    qed
  qed
qed

lemma matchesQuery_iff: "matchesQuery L query (content m) \<longleftrightarrow> containsFolded L query m"
  by (simp add: matchesQuery_def containsFolded_def includes_str_iff)

lemma includes_str_empty: "includes_str s []"
  by (cases s) simp_all

lemma matchesQuery_empty: "toLowerCase L [] = [] \<Longrightarrow> matchesQuery L [] c"
  by (simp add: matchesQuery_def includes_str_empty)

lemma insertBy_insort_key:
  "insertBy byTimestampDesc x ys = insort_key (\<lambda>m. - timestamp m) x ys"
  by (induction ys) (auto simp: byTimestampDesc_def)

lemma js_sort_sort_key: "js_sort byTimestampDesc xs = sort_key (\<lambda>m. - timestamp m) xs"
  by (induction xs) (simp_all add: js_sort_def insertBy_insort_key)

lemma mset_js_sort: "mset (js_sort byTimestampDesc xs) = mset xs"
  by (simp add: js_sort_sort_key)

lemma sorted_js_sort: "sorted_wrt (\<lambda>a b. timestamp b \<le> timestamp a) (js_sort byTimestampDesc xs)"
proof -
  have "sorted (map (\<lambda>m. - timestamp m) (js_sort byTimestampDesc xs))"
    by (simp add: js_sort_sort_key)
  then show ?thesis
    by (simp add: sorted_map)
qed

lemma stable_js_sort:
  "filter (\<lambda>m. timestamp m = t) (js_sort byTimestampDesc xs) = filter (\<lambda>m. timestamp m = t) xs"
  using sort_key_stable [of "\<lambda>m. - timestamp m" "- t" xs]
  by (simp add: js_sort_sort_key)

lemma insertBy_map_toHit:
  "insertBy hitsByTimestampDesc (toHit x) (map toHit ys) = map toHit (insertBy byTimestampDesc x ys)"
  by (induction ys) (auto simp: hitsByTimestampDesc_def byTimestampDesc_def toHit_def)

lemma js_sort_map_toHit:
  "js_sort hitsByTimestampDesc (map toHit xs) = map toHit (js_sort byTimestampDesc xs)"
proof (induction xs)
  case Nil
  show ?case by (simp add: js_sort_def)
next
  case (Cons x xs)
  then show ?case
    using insertBy_map_toHit [of x "js_sort byTimestampDesc xs"]
    by (simp add: js_sort_def)
qed

lemma slice_0: "slice xs 0 n = take n xs"
  by (simp add: slice_def)

lemma rankMemories_take:
  "rankMemories L cands query =
     take 10 (js_sort byTimestampDesc (filter (\<lambda>m. matchesQuery L query (content m)) cands))"
  by (simp add: rankMemories_def slice_0)

lemma collectHits_resolve:
  "collectHits L e db u query n ids = Inr hs \<Longrightarrow>
     hs = map toHit (filter (\<lambda>m. matchesQuery L query (content m)) (resolve db u ids))"
proof (induction ids arbitrary: n hs)
  case Nil
  then show ?case by (simp add: resolve_def)
next
  case (Cons i ids)
  show ?case
  proof (cases "redis_get (get_ok e n) (memoryKey u i) db")
    case (Inl err)
    with Cons.prems show ?thesis by simp
  next
    case (Inr r)
    show ?thesis
    proof (cases r)
      case None
      with Inr Cons.prems have c: "collectHits L e db u query (Suc n) ids = Inr hs" by simp
      from None Inr have "resolve db u (i # ids) = resolve db u ids"
        by (auto simp: resolve_def redis_get_def split: if_splits option.splits redis_val.splits)
      with Cons.IH [OF c] show ?thesis by simp
    next
      case (Some m)
      with Inr Cons.prems obtain hs' where
        c: "collectHits L e db u query (Suc n) ids = Inr hs'" and
        h: "hs = (if matchesQuery L query (content m) then toHit m # hs' else hs')"
        by (auto split: sum.splits)
      from Some Inr have "resolve db u (i # ids) = m # resolve db u ids"
        by (auto simp: resolve_def redis_get_def split: if_splits option.splits redis_val.splits)
      with Cons.IH [OF c] h show ?thesis by simp
    qed
  qed
qed

lemma redis_zrevrange_indexIds:
  "redis_zrevrange ok (indexKey u) 0 99 db = Inr ids \<Longrightarrow> ids = indexIds db u"
  by (auto simp: redis_zrevrange_def indexIds_def slice_0 split: if_splits option.splits redis_val.splits)

lemma searchStore_rank:
  assumes "searchStore L e db query u = Inr hs"
  shows "hs = map toHit (rankMemories L (resolve db u (indexIds db u)) query)"
proof -
  from assms obtain ids hs0 where
    z: "redis_zrevrange (zrevrange_ok e) (indexKey u) 0 99 db = Inr ids" and
    c: "collectHits L e db u query 0 ids = Inr hs0" and
    h: "hs = slice (js_sort hitsByTimestampDesc hs0) 0 10"
    by (auto simp: searchStore_def split: sum.splits)
  from z have i: "ids = indexIds db u" by (rule redis_zrevrange_indexIds)
  from collectHits_resolve [OF c] h i show ?thesis
    by (simp add: rankMemories_take slice_0 js_sort_map_toHit take_map)
qed

lemma searchResults_cases:
  "searchResults L e st query u =
     map toHit (rankMemories L
       (case searchStore L e (redis st) query u of
          Inr hs \<Rightarrow> resolve (redis st) u (indexIds (redis st) u)
        | Inl err \<Rightarrow> filter (\<lambda>m. userId m = u) (memories st)) query)"
  by (auto simp: searchResults_def searchFallback_def dest: searchStore_rank split: sum.splits)

lemma searchMemories_valid:
  "validArgs ''query'' args query u \<Longrightarrow>
     searchMemories L e args st =
       (Inr (TextContent (foundText L query (searchResults L e st query u))), st)"
  by (simp add: searchMemories_def zObject2_valid[symmetric])

lemma searchMemories_mem_valid:
  "validArgs ''query'' args query u \<Longrightarrow>
     searchMemories_mem L args mems =
       (Inr (TextContent (foundText L query (searchFallback L mems query u))), mems)"
  by (simp add: searchMemories_mem_def zObject2_valid[symmetric])

lemma rankMemories_order:
  "\<exists>S. rankMemories L cands query = take 10 S \<and>
       mset S = mset (filter (containsFolded L query) cands) \<and>
       sorted_wrt (\<lambda>a b. timestamp b \<le> timestamp a) S \<and>
       (\<forall>t. filter (\<lambda>m. timestamp m = t) S =
            filter (\<lambda>m. timestamp m = t) (filter (containsFolded L query) cands))"
proof -
  let ?F = "filter (\<lambda>m. matchesQuery L query (content m)) cands"
  have f: "?F = filter (containsFolded L query) cands"
    by (simp add: matchesQuery_iff)
  let ?S = "js_sort byTimestampDesc ?F"
  have "rankMemories L cands query = take 10 ?S"
    by (rule rankMemories_take)
  moreover have "mset ?S = mset (filter (containsFolded L query) cands)"
    by (simp only: mset_js_sort f)
  moreover have "sorted_wrt (\<lambda>a b. timestamp b \<le> timestamp a) ?S"
    by (rule sorted_js_sort)
  moreover have "\<forall>t. filter (\<lambda>m. timestamp m = t) ?S =
      filter (\<lambda>m. timestamp m = t) (filter (containsFolded L query) cands)"
    by (simp only: stable_js_sort f) simp
  ultimately show ?thesis by blast
qed

lemma rankMemories_no_match:
  assumes "\<forall>m \<in> set cands. \<not> containsFolded L query m"
  shows "rankMemories L cands query = []"
proof -
  from assms have "filter (\<lambda>m. matchesQuery L query (content m)) cands = []"
    by (simp add: matchesQuery_iff filter_empty_conv)
  then show ?thesis
    by (simp add: rankMemories_take js_sort_def)
qed

text \<open>
  C2: the ranking of \<^verbatim>\<open>searchMemories\<close> returns the first 10 elements of a list that
  holds exactly the candidates whose content, in lower case, has the query, in lower case,
  as a substring, each as often as it is a candidate, in descending order of timestamp,
  those of equal timestamp in the order they have among the candidates. It returns the
  empty list when no candidate matches. Both paths of the search rank this way: the
  candidates are the records the index of the user leads to when the store answers, and
  the elements of the array with the user's id when it does not. For arguments the schema
  accepts, the search returns a text and no error. The lower case is that of
  \<^verbatim>\<open>toLowerCase\<close>, whatever it does to the characters of a text.
\<close>

theorem rankMemories_filters_sorts_truncates:
  "(\<exists>S. rankMemories L cands query = take 10 S \<and>
       mset S = mset (filter (containsFolded L query) cands) \<and>
       sorted_wrt (\<lambda>a b. timestamp b \<le> timestamp a) S \<and>
       (\<forall>t. filter (\<lambda>m. timestamp m = t) S =
            filter (\<lambda>m. timestamp m = t) (filter (containsFolded L query) cands))) \<and>
   ((\<forall>m \<in> set cands. \<not> containsFolded L query m) \<longrightarrow> rankMemories L cands query = []) \<and>
   searchResults L e st query u =
     map toHit (rankMemories L
       (case searchStore L e (redis st) query u of
          Inr hs \<Rightarrow> resolve (redis st) u (indexIds (redis st) u)
        | Inl err \<Rightarrow> filter (\<lambda>m. userId m = u) (memories st)) query) \<and>
   (validArgs ''query'' args query u \<longrightarrow>
      fst (searchMemories L e args st) =
        Inr (TextContent (foundText L query (searchResults L e st query u))) \<and>
      fst (searchMemories_mem L args mems) =
        Inr (TextContent (foundText L query
          (map toHit (rankMemories L (filter (\<lambda>m. userId m = u) mems) query)))))"
  using rankMemories_order [of L cands query]
    rankMemories_no_match [where L = L and cands = cands and query = query]
    searchResults_cases [of L e st query u]
    searchMemories_valid [of args query u L e st]
    searchMemories_mem_valid [of args query u L mems]
  by (simp add: searchFallback_def)

theorem rankMemories_filters_sorts_truncates_witness:
  "validArgs ''query'' (JObj [(''query'', JStr ''hello''), (''userId'', JStr ''u1'')]) ''hello'' ''u1'' \<and>
   \<not> containsFolded \<lparr>toLowerCase = asciiLower, toISOString = (\<lambda>t. ''T'')\<rparr> ''hello'' \<lparr>id = ''a'', content = ''Bye'', userId = ''u1'', timestamp = 5\<rparr> \<and>
   rankMemories \<lparr>toLowerCase = asciiLower, toISOString = (\<lambda>t. ''T'')\<rparr> [\<lparr>id = ''a'', content = ''Bye'', userId = ''u1'', timestamp = 5\<rparr>] ''hello'' = [] \<and>
   fst (searchMemories_mem \<lparr>toLowerCase = asciiLower, toISOString = (\<lambda>t. ''T'')\<rparr>
       (JObj [(''query'', JStr ''hello''), (''userId'', JStr ''u1'')])
       [\<lparr>id = ''a'', content = ''Hello World'', userId = ''u1'', timestamp = 5\<rparr>,
        \<lparr>id = ''b'', content = ''Bye'', userId = ''u1'', timestamp = 6\<rparr>,
        \<lparr>id = ''c'', content = ''oh HELLO'', userId = ''u1'', timestamp = 7\<rparr>,
        \<lparr>id = ''d'', content = ''hello'', userId = ''u2'', timestamp = 8\<rparr>]) =
     Inr (TextContent (foundText \<lparr>toLowerCase = asciiLower, toISOString = (\<lambda>t. ''T'')\<rparr> ''hello''
       [\<lparr>hit_id = ''c'', hit_content = ''oh HELLO'', hit_timestamp = 7\<rparr>,
        \<lparr>hit_id = ''a'', hit_content = ''Hello World'', hit_timestamp = 5\<rparr>]))"
proof -
  have h: "validArgs ''query'' (JObj [(''query'', JStr ''hello''), (''userId'', JStr ''u1'')])
      ''hello'' ''u1''"
    by (simp add: getProp_def)
  have n: "\<forall>m \<in> set [\<lparr>id = ''a'', content = ''Bye'', userId = ''u1'', timestamp = 5\<rparr>].
      \<not> containsFolded \<lparr>toLowerCase = asciiLower, toISOString = (\<lambda>t. ''T'')\<rparr> ''hello'' m"
    by (simp add: matchesQuery_iff [symmetric] matchesQuery_def asciiLower_def asciiLowerChar_def char_of_eq_iff)
  have r: "rankMemories \<lparr>toLowerCase = asciiLower, toISOString = (\<lambda>t. ''T'')\<rparr> (filter (\<lambda>m. userId m = ''u1'')
       [\<lparr>id = ''a'', content = ''Hello World'', userId = ''u1'', timestamp = 5\<rparr>,
        \<lparr>id = ''b'', content = ''Bye'', userId = ''u1'', timestamp = 6\<rparr>,
        \<lparr>id = ''c'', content = ''oh HELLO'', userId = ''u1'', timestamp = 7\<rparr>,
        \<lparr>id = ''d'', content = ''hello'', userId = ''u2'', timestamp = 8\<rparr>]) ''hello'' =
       [\<lparr>id = ''c'', content = ''oh HELLO'', userId = ''u1'', timestamp = 7\<rparr>,
        \<lparr>id = ''a'', content = ''Hello World'', userId = ''u1'', timestamp = 5\<rparr>]"
    by (simp add: rankMemories_def slice_def js_sort_def byTimestampDesc_def matchesQuery_def
        asciiLower_def asciiLowerChar_def char_of_eq_iff)
  show ?thesis
    using h n [simplified] r
      rankMemories_filters_sorts_truncates [where L = "\<lparr>toLowerCase = asciiLower, toISOString = (\<lambda>t. ''T'')\<rparr>"
        and cands = "[\<lparr>id = ''a'', content = ''Bye'', userId = ''u1'', timestamp = 5\<rparr>]"
        and query = "''hello''" and u = "''u1''"
        and args = "JObj [(''query'', JStr ''hello''), (''userId'', JStr ''u1'')]"
        and mems = "[\<lparr>id = ''a'', content = ''Hello World'', userId = ''u1'', timestamp = 5\<rparr>,
          \<lparr>id = ''b'', content = ''Bye'', userId = ''u1'', timestamp = 6\<rparr>,
          \<lparr>id = ''c'', content = ''oh HELLO'', userId = ''u1'', timestamp = 7\<rparr>,
          \<lparr>id = ''d'', content = ''hello'', userId = ''u2'', timestamp = 8\<rparr>]"]
    by (simp add: toHit_def)
qed

lemma length_js_sort: "length (js_sort byTimestampDesc xs) = length xs"
  by (simp add: js_sort_sort_key)

lemma rankMemories_empty_query:
  "toLowerCase L [] = [] \<Longrightarrow>
     rankMemories L cands [] = take 10 (js_sort byTimestampDesc cands)"
  by (simp add: rankMemories_take matchesQuery_empty)

lemma rankMemories_most_recent:
  assumes "toLowerCase L [] = []"
  shows "\<exists>rest. mset (rankMemories L cands []) + mset rest = mset cands \<and>
          (\<forall>a \<in> set (rankMemories L cands []). \<forall>b \<in> set rest. timestamp b \<le> timestamp a)"
proof -
  note rankMemories_empty_query = rankMemories_empty_query [OF assms]
  let ?S = "js_sort byTimestampDesc cands"
  have "mset (take 10 ?S) + mset (drop 10 ?S) = mset ?S"
    by (simp flip: mset_append)
  then have m: "mset (rankMemories L cands []) + mset (drop 10 ?S) = mset cands"
    by (simp add: rankMemories_empty_query mset_js_sort)
  have "sorted_wrt (\<lambda>a b. timestamp b \<le> timestamp a) (take 10 ?S @ drop 10 ?S)"
    using sorted_js_sort [of cands] by simp
  then have "\<forall>a \<in> set (take 10 ?S). \<forall>b \<in> set (drop 10 ?S). timestamp b \<le> timestamp a"
    unfolding sorted_wrt_append by blast
  with m show ?thesis
    by (auto simp: rankMemories_empty_query)
qed

text \<open>
  C8: the empty query matches every content, so the ranking with the empty query keeps
  every candidate: it returns 10 candidates, or all when there are fewer, in descending
  order of timestamp, and no candidate left out is more recent than one returned. In
  both paths of the search these are the most recent of the candidates of the user. The
  case folding is any that leaves the empty string empty, as \<^verbatim>\<open>toLowerCase\<close> does.
\<close>

theorem empty_query_most_recent:
  assumes "toLowerCase L '''' = ''''"
  shows
  "matchesQuery L '''' c \<and>
   rankMemories L cands '''' = take 10 (js_sort byTimestampDesc cands) \<and>
   length (rankMemories L cands '''') = min 10 (length cands) \<and>
   sorted_wrt (\<lambda>a b. timestamp b \<le> timestamp a) (rankMemories L cands '''') \<and>
   (\<exists>rest. mset (rankMemories L cands '''') + mset rest = mset cands \<and>
      (\<forall>a \<in> set (rankMemories L cands ''''). \<forall>b \<in> set rest. timestamp b \<le> timestamp a)) \<and>
   searchResults L e st '''' u =
     map toHit (rankMemories L
       (case searchStore L e (redis st) '''' u of
          Inr hs \<Rightarrow> resolve (redis st) u (indexIds (redis st) u)
        | Inl err \<Rightarrow> filter (\<lambda>m. userId m = u) (memories st)) '''')"
proof -
  note q = rankMemories_empty_query [OF assms, of cands]
  have s: "sorted_wrt (\<lambda>a b. timestamp b \<le> timestamp a) (rankMemories L cands '''')"
    using sorted_js_sort [of cands]
    by (simp add: q sorted_wrt_take)
  have l: "length (rankMemories L cands '''') = min 10 (length cands)"
    by (simp add: q length_js_sort min.commute)
  from s l q matchesQuery_empty [OF assms, of c]
    rankMemories_most_recent [OF assms, of cands] searchResults_cases [of L e st "''''" u]
  show ?thesis by simp
qed

theorem empty_query_most_recent_witness:
  "toLowerCase \<lparr>toLowerCase = asciiLower, toISOString = (\<lambda>t. ''T'')\<rparr> '''' = '''' \<and>
   searchResults \<lparr>toLowerCase = asciiLower, toISOString = (\<lambda>t. ''T'')\<rparr>
       \<lparr>random36 = ''0.4fzyo82mvyr'', newDate = 1000, dateNow = 1001, set_ok = False,
        zadd_ok = False, zrevrange_ok = False, get_ok = (\<lambda>n. False)\<rparr>
       \<lparr>memories =
          [\<lparr>id = ''a'', content = ''Hello World'', userId = ''u1'', timestamp = 5\<rparr>,
           \<lparr>id = ''b'', content = '''', userId = ''u1'', timestamp = 7\<rparr>,
           \<lparr>id = ''c'', content = ''Bye'', userId = ''u2'', timestamp = 8\<rparr>],
        redis = Map.empty\<rparr> '''' ''u1'' =
     [\<lparr>hit_id = ''b'', hit_content = '''', hit_timestamp = 7\<rparr>,
      \<lparr>hit_id = ''a'', hit_content = ''Hello World'', hit_timestamp = 5\<rparr>]"
proof -
  have h: "toLowerCase \<lparr>toLowerCase = asciiLower, toISOString = (\<lambda>t. ''T'')\<rparr> '''' = ''''"
    by (simp add: asciiLower_def)
  show ?thesis
    using h empty_query_most_recent [OF h, of "''x''"
      "[\<lparr>id = ''a'', content = ''Hello World'', userId = ''u1'', timestamp = 5\<rparr>,
        \<lparr>id = ''b'', content = '''', userId = ''u1'', timestamp = 7\<rparr>]"
      "\<lparr>random36 = ''0.4fzyo82mvyr'', newDate = 1000, dateNow = 1001, set_ok = False,
        zadd_ok = False, zrevrange_ok = False, get_ok = (\<lambda>n. False)\<rparr>"
      "\<lparr>memories =
          [\<lparr>id = ''a'', content = ''Hello World'', userId = ''u1'', timestamp = 5\<rparr>,
           \<lparr>id = ''b'', content = '''', userId = ''u1'', timestamp = 7\<rparr>,
           \<lparr>id = ''c'', content = ''Bye'', userId = ''u2'', timestamp = 8\<rparr>],
        redis = Map.empty\<rparr>" "''u1''"]
    by (simp add: searchStore_def redis_zrevrange_def js_sort_def byTimestampDesc_def toHit_def)
qed

section \<open>Users do not see each other\<close>

lemma split_at_last_colon:
  assumes "xs @ CHR '':'' # ys = xs' @ CHR '':'' # ys'"
    and "CHR '':'' \<notin> set ys" and "CHR '':'' \<notin> set ys'"
  shows "xs = xs'"
  using assms
proof (induction xs arbitrary: xs')
  case Nil
  then show ?case by (cases xs') auto
next
  case (Cons x xs)
  then show ?case by (cases xs') auto
qed

lemma memoryKey_inj:
  assumes "memoryKey u i = memoryKey u' i'"
    and "CHR '':'' \<notin> set i" and "CHR '':'' \<notin> set i'"
  shows "u = u'"
  using assms split_at_last_colon [of u i u' i']
  by (simp add: memoryKey_def)

lemma memoryKey_same_user: "memoryKey u i = memoryKey u i' \<longleftrightarrow> i = i'"
  by (simp add: memoryKey_def)

lemma indexKey_inj: "indexKey u = indexKey u' \<longleftrightarrow> u = u'"
  by (simp add: indexKey_def)

lemma colon_not_base36: "list_all isBase36Digit s \<Longrightarrow> CHR '':'' \<notin> set s"
  by (auto simp: list_all_iff isBase36Digit_def)

lemma storeMemory_other:
  "k \<noteq> memoryKey (userId m) (id m) \<Longrightarrow> k \<noteq> indexKey (userId m) \<Longrightarrow>
     fst (storeMemory e m db) k = db k"
  by (auto simp: storeMemory_def redis_set_def redis_zadd_def
      split: sum.splits option.splits redis_val.splits if_splits)

lemma storeMemory_record:
  "fst (storeMemory e m db) (memoryKey (userId m) (id m)) =
     (if set_ok e then Some (RString m) else db (memoryKey (userId m) (id m)))"
  by (auto simp: storeMemory_def redis_set_def redis_zadd_def key_distinct
      split: sum.splits option.splits redis_val.splits if_splits)

lemma storeMemory_index:
  "db (indexKey (userId m)) = db' (indexKey (userId m)) \<Longrightarrow>
     snd (storeMemory e m db) = snd (storeMemory e m db') \<and>
     fst (storeMemory e m db) (indexKey (userId m)) =
       fst (storeMemory e m db') (indexKey (userId m))"
  by (auto simp: storeMemory_def redis_set_def redis_zadd_def key_distinct
      split: sum.splits option.splits redis_val.splits if_splits)

lemma storeMemory_unset:
  "\<not> set_ok e \<Longrightarrow> fst (storeMemory e m db) = db"
  by (simp add: storeMemory_def redis_set_def)

lemma storeMemory_ids:
  "set (allIds (fst (storeMemory e m db)) (userId m)) \<subseteq> insert (id m) (set (allIds db (userId m)))"
  by (auto simp: allIds_def storeMemory_def redis_set_def redis_zadd_def key_distinct set_zInsert
      split: sum.splits option.splits redis_val.splits if_splits)

lemma allIds_iff:
  "i \<in> set (allIds db u) \<longleftrightarrow> (\<exists>zs s. db (indexKey u) = Some (RZSet zs) \<and> (i, s) \<in> set zs)"
  by (cases "db (indexKey u)") (force simp: allIds_def split: redis_val.splits)+

lemma allIds_colon_free:
  "idsColonFree db \<Longrightarrow> i \<in> set (allIds db u) \<Longrightarrow> CHR '':'' \<notin> set i"
  unfolding idsColonFree_def allIds_iff by fastforce

lemma storeMemory_colon_free:
  assumes "idsColonFree db" and "CHR '':'' \<notin> set (id m)"
  shows "idsColonFree (fst (storeMemory e m db))"
  unfolding idsColonFree_def
proof (intro allI impI ballI)
  fix k zs z
  assume s: "fst (storeMemory e m db) k = Some (RZSet zs)" and z: "z \<in> set zs"
  show "CHR '':'' \<notin> set (fst z)"
  proof (cases "k = indexKey (userId m)")
    case False
    with s have "db k = Some (RZSet zs)"
      by (cases "k = memoryKey (userId m) (id m)")
         (auto simp: storeMemory_other storeMemory_record split: if_splits)
    with assms(1) z show ?thesis
      unfolding idsColonFree_def by blast
  next
    case True
    with s z have "fst z \<in> set (allIds (fst (storeMemory e m db)) (userId m))"
      unfolding allIds_iff by (cases z) auto
    with storeMemory_ids [of e m db] have "fst z = id m \<or> fst z \<in> set (allIds db (userId m))"
      by auto
    with assms show ?thesis
      by (auto dest: allIds_colon_free)
  qed
qed

lemma collectHits_cong:
  "\<forall>i \<in> set ids. db (memoryKey u i) = db' (memoryKey u i) \<Longrightarrow>
     collectHits L e db u query n ids = collectHits L e db' u query n ids"
  by (induction ids arbitrary: n)
     (auto simp: redis_get_def split: sum.splits option.splits redis_val.splits)

lemma searchStore_cong:
  assumes "db (indexKey u) = db' (indexKey u)"
    and "\<forall>i \<in> set (allIds db u). db (memoryKey u i) = db' (memoryKey u i)"
  shows "searchStore L e db query u = searchStore L e db' query u"
proof -
  have z: "redis_zrevrange (zrevrange_ok e) (indexKey u) 0 99 db =
      redis_zrevrange (zrevrange_ok e) (indexKey u) 0 99 db'"
    using assms(1) by (simp add: redis_zrevrange_def)
  show ?thesis
  proof (cases "redis_zrevrange (zrevrange_ok e) (indexKey u) 0 99 db")
    case (Inl err)
    with z have "redis_zrevrange (zrevrange_ok e) (indexKey u) 0 99 db' = Inl err" by simp
    with Inl show ?thesis by (simp add: searchStore_def)
  next
    case (Inr ids)
    then have "set ids \<subseteq> set (allIds db u)"
      by (auto simp: redis_zrevrange_def allIds_def slice_0 dest: in_set_takeD
          split: if_splits option.splits redis_val.splits)
    with assms(2) have c: "collectHits L e db u query 0 ids = collectHits L e db' u query 0 ids"
      by (intro collectHits_cong) blast
    from z Inr have "redis_zrevrange (zrevrange_ok e) (indexKey u) 0 99 db' = Inr ids" by simp
    with Inr c show ?thesis by (simp add: searchStore_def)
  qed
qed

lemma searchResults_view:
  assumes "sameView u st st'"
  shows "searchResults L e st query u = searchResults L e st' query u"
proof -
  from assms have "searchStore L e (redis st) query u = searchStore L e (redis st') query u"
    unfolding sameView_def by (intro searchStore_cong) simp_all
  with assms show ?thesis
    by (simp add: searchResults_def searchFallback_def sameView_def split: sum.splits)
qed

lemma allIds_cong: "db (indexKey u) = db' (indexKey u) \<Longrightarrow> allIds db u = allIds db' u"
  by (simp add: allIds_def)

lemma addMemory_state:
  "validArgs ''content'' args c u \<Longrightarrow>
     redis (snd (addMemory e args st)) = fst (storeMemory e (newMemory e c u) (redis st)) \<and>
     memories (snd (addMemory e args st)) =
       (if snd (storeMemory e (newMemory e c u) (redis st)) then memories st
        else memories st @ [newMemory e c u])"
  by (simp add: addMemory_valid)

lemma addMemory_other_user:
  assumes v: "sameView u st st'" and inv: "idsColonFree (redis st)"
    and a: "validArgs ''content'' args c u1" and ne: "u1 \<noteq> u"
    and id: "CHR '':'' \<notin> set (newId e)"
  shows "sameView u (snd (addMemory e args st)) st'"
proof -
  let ?m = "newMemory e c u1"
  note s = addMemory_state [OF a, of e st]
  have ix: "redis (snd (addMemory e args st)) (indexKey u) = redis st (indexKey u)"
    using ne by (simp add: s storeMemory_other key_distinct indexKey_inj)
  have "redis (snd (addMemory e args st)) (memoryKey u i) = redis st (memoryKey u i)"
    if "i \<in> set (allIds (redis st) u)" for i
  proof -
    from that inv have "CHR '':'' \<notin> set i" by (simp add: allIds_colon_free)
    with id ne have "memoryKey u i \<noteq> memoryKey u1 (newId e)"
      using memoryKey_inj [of u i u1 "newId e"] by auto
    then show ?thesis
      by (simp add: s storeMemory_other key_distinct)
  qed
  moreover have "allIds (redis (snd (addMemory e args st))) u = allIds (redis st) u"
    using ix by (rule allIds_cong)
  moreover have "filter (\<lambda>m. userId m = u) (memories (snd (addMemory e args st))) =
      filter (\<lambda>m. userId m = u) (memories st)"
    using ne by (simp add: s)
  ultimately show ?thesis
    using v ix by (simp add: sameView_def)
qed

lemma addMemory_same_user:
  assumes v: "sameView u st st'" and a: "validArgs ''content'' args c u"
  shows "sameView u (snd (addMemory e args st)) (snd (addMemory e args st'))"
proof -
  let ?m = "newMemory e c u"
  let ?db = "fst (storeMemory e ?m (redis st))" and ?db' = "fst (storeMemory e ?m (redis st'))"
  note s = addMemory_state [OF a, of e st] and s' = addMemory_state [OF a, of e st']
  from v have ix0: "redis st (indexKey u) = redis st' (indexKey u)"
    by (simp add: sameView_def)
  from v have rec0: "\<And>i. i \<in> set (allIds (redis st) u) \<Longrightarrow>
      redis st (memoryKey u i) = redis st' (memoryKey u i)"
    by (simp add: sameView_def)
  from storeMemory_index [of "redis st" ?m "redis st'" e] ix0
  have st: "snd (storeMemory e ?m (redis st)) = snd (storeMemory e ?m (redis st'))"
    and ix: "?db (indexKey u) = ?db' (indexKey u)"
    by simp_all
  have mem: "filter (\<lambda>m. userId m = u) (memories (snd (addMemory e args st))) =
      filter (\<lambda>m. userId m = u) (memories (snd (addMemory e args st')))"
    using v st by (simp add: s s' sameView_def)
  have rec: "?db (memoryKey u i) = ?db' (memoryKey u i)" if i: "i \<in> set (allIds ?db u)" for i
  proof (cases "set_ok e")
    case False
    with i rec0 show ?thesis by (simp add: storeMemory_unset)
  next
    case True
    show ?thesis
    proof (cases "i = newId e")
      case same: True
      with True show ?thesis
        using storeMemory_record [of e ?m "redis st"] storeMemory_record [of e ?m "redis st'"]
        by simp
    next
      case False
      with i storeMemory_ids [of e ?m "redis st"] have "i \<in> set (allIds (redis st) u)"
        by auto
      with False rec0 show ?thesis
        by (simp add: storeMemory_other memoryKey_same_user key_distinct)
    qed
  qed
  from mem ix rec show ?thesis
    by (simp add: sameView_def s s')
qed

lemma addMemory_colon_free:
  assumes "idsColonFree (redis st)" and "isRadix36Text (random36 e)"
  shows "idsColonFree (redis (snd (addMemory e args st)))"
proof (cases "zObject2 ''content'' args")
  case (Inl err)
  with assms(1) show ?thesis by (simp add: addMemory_invalid)
next
  case (Inr p)
  then obtain c u where "validArgs ''content'' args c u"
    by (cases p) (simp add: zObject2_valid)
  from addMemory_state [OF this, of e st] assms show ?thesis
    by (simp add: storeMemory_colon_free colon_not_base36 newId_base36)
qed

lemma callTool_state:
  "snd (callTool L e name args st) =
     (if name = ''add-memory'' then snd (addMemory e args st) else st)"
  by (simp add: callTool_def snd_wrapError searchMemories_state)

lemma sameView_refl: "sameView u st st"
  by (simp add: sameView_def)

lemma run_purge:
  assumes "sameView u st st'" and "idsColonFree (redis st)"
    and "\<forall>c \<in> set cs. isRadix36Text (random36 (call_env c))"
  shows "sameView u (run L cs st) (run L (filter (recordsFor u) cs) st')"
  using assms
proof (induction cs arbitrary: st st')
  case Nil
  then show ?case by simp
next
  case (Cons c cs)
  let ?st1 = "snd (callTool L (call_env c) (call_name c) (call_args c) st)"
  from Cons.prems have r: "isRadix36Text (random36 (call_env c))"
    and rs: "\<forall>c \<in> set cs. isRadix36Text (random36 (call_env c))"
    by simp_all
  have inv: "idsColonFree (redis ?st1)"
    using Cons.prems(2) r by (simp add: callTool_state addMemory_colon_free)
  show ?case
  proof (cases "recordsFor u c")
    case True
    then obtain x where n: "call_name c = ''add-memory''"
      and a: "validArgs ''content'' (call_args c) x u"
      by (auto simp: recordsFor_def zObject2_valid split: sum.splits)
    let ?st1' = "snd (callTool L (call_env c) (call_name c) (call_args c) st')"
    have "sameView u ?st1 ?st1'"
      using addMemory_same_user [OF Cons.prems(1) a] n by (simp add: callTool_state)
    from Cons.IH [OF this inv rs] True show ?thesis by simp
  next
    case False
    have "sameView u ?st1 st'"
    proof (cases "call_name c = ''add-memory''")
      case other: False
      with Cons.prems(1) show ?thesis by (simp add: callTool_state)
    next
      case add: True
      show ?thesis
      proof (cases "zObject2 ''content'' (call_args c)")
        case (Inl err)
        with add Cons.prems(1) show ?thesis
          by (simp add: callTool_state addMemory_invalid)
      next
        case (Inr p)
        then obtain x u1 where a: "validArgs ''content'' (call_args c) x u1"
          by (cases p) (simp add: zObject2_valid)
        with False add have ne: "u1 \<noteq> u"
          by (auto simp: recordsFor_def zObject2_valid [symmetric])
        have "CHR '':'' \<notin> set (newId (call_env c))"
          using r by (simp add: colon_not_base36 newId_base36)
        from addMemory_other_user [OF Cons.prems(1,2) a ne this] add show ?thesis
          by (simp add: callTool_state)
      qed
    qed
    from Cons.IH [OF this inv rs] False show ?thesis by simp
  qed
qed

text \<open>
  C7: what a search under a user returns is what it would return had no call recorded a
  memory under another user. The run starts in any state whose store has only ids as
  members of its sorted sets, goes through any calls, of any tools, with any arguments
  and any answers of the store, the random numbers being rendered as base-36 texts; the
  search that follows, under the user \<open>u2\<close>, returns the same as after the run made of
  only those calls that record a memory under \<open>u2\<close>.
\<close>

theorem cross_user_isolation:
  assumes "idsColonFree (redis st)"
    and "\<forall>c \<in> set cs. isRadix36Text (random36 (call_env c))"
    and "validArgs ''query'' args query u2"
  shows "fst (callTool L e ''search-memories'' args (run L cs st)) =
         fst (callTool L e ''search-memories'' args
                (run L (filter (recordsFor u2) cs) st))"
proof -
  have "sameView u2 (run L cs st) (run L (filter (recordsFor u2) cs) st)"
    using sameView_refl assms(1,2) by (rule run_purge)
  then have "searchResults L e (run L cs st) query u2 =
      searchResults L e (run L (filter (recordsFor u2) cs) st) query u2"
    by (rule searchResults_view)
  then show ?thesis
    by (simp add: callTool_def wrapError_def searchMemories_valid [OF assms(3)])
qed

theorem cross_user_isolation_witness:
  "idsColonFree (redis initialState) \<and>
   isRadix36Text ''0.a1'' \<and> isRadix36Text ''0.b2'' \<and>
   validArgs ''query'' (JObj [(''query'', JStr ''''), (''userId'', JStr ''u2'')]) '''' ''u2'' \<and>
   fst (callTool \<lparr>toLowerCase = asciiLower, toISOString = (\<lambda>t. ''T'')\<rparr>
       \<lparr>random36 = ''0.c3'', newDate = 30, dateNow = 31, set_ok = True,
        zadd_ok = True, zrevrange_ok = True, get_ok = (\<lambda>n. True)\<rparr>
       ''search-memories'' (JObj [(''query'', JStr ''''), (''userId'', JStr ''u2'')])
       (run \<lparr>toLowerCase = asciiLower, toISOString = (\<lambda>t. ''T'')\<rparr>
          [\<lparr>call_env = \<lparr>random36 = ''0.a1'', newDate = 10, dateNow = 11, set_ok = True,
              zadd_ok = True, zrevrange_ok = True, get_ok = (\<lambda>n. True)\<rparr>,
            call_name = ''add-memory'',
            call_args = JObj [(''content'', JStr ''secret''), (''userId'', JStr ''u1'')]\<rparr>,
           \<lparr>call_env = \<lparr>random36 = ''0.b2'', newDate = 20, dateNow = 21, set_ok = True,
              zadd_ok = True, zrevrange_ok = True, get_ok = (\<lambda>n. True)\<rparr>,
            call_name = ''add-memory'',
            call_args = JObj [(''content'', JStr ''mine''), (''userId'', JStr ''u2'')]\<rparr>]
          initialState)) =
     Inr (TextContent (foundText \<lparr>toLowerCase = asciiLower, toISOString = (\<lambda>t. ''T'')\<rparr> ''''
       [\<lparr>hit_id = ''b2'', hit_content = ''mine'', hit_timestamp = 20\<rparr>]))"
proof -
  let ?cs = "[\<lparr>call_env = \<lparr>random36 = ''0.a1'', newDate = 10, dateNow = 11, set_ok = True,
          zadd_ok = True, zrevrange_ok = True, get_ok = (\<lambda>n. True)\<rparr>,
        call_name = ''add-memory'',
        call_args = JObj [(''content'', JStr ''secret''), (''userId'', JStr ''u1'')]\<rparr>,
       \<lparr>call_env = \<lparr>random36 = ''0.b2'', newDate = 20, dateNow = 21, set_ok = True,
          zadd_ok = True, zrevrange_ok = True, get_ok = (\<lambda>n. True)\<rparr>,
        call_name = ''add-memory'',
        call_args = JObj [(''content'', JStr ''mine''), (''userId'', JStr ''u2'')]\<rparr>]"
  have h1: "idsColonFree (redis initialState)"
    by (simp add: idsColonFree_def initialState_def)
  have h2: "\<forall>c \<in> set ?cs. isRadix36Text (random36 (call_env c))"
    by (simp add: isRadix36Text_def isBase36Digit_def)
  have h3: "validArgs ''query'' (JObj [(''query'', JStr ''''), (''userId'', JStr ''u2'')]) '''' ''u2''"
    by (simp add: getProp_def)
  have p: "filter (recordsFor ''u2'') ?cs =
      [\<lparr>call_env = \<lparr>random36 = ''0.b2'', newDate = 20, dateNow = 21, set_ok = True,
          zadd_ok = True, zrevrange_ok = True, get_ok = (\<lambda>n. True)\<rparr>,
        call_name = ''add-memory'',
        call_args = JObj [(''content'', JStr ''mine''), (''userId'', JStr ''u2'')]\<rparr>]"
    by (simp add: recordsFor_def getProp_def)
  have r: "fst (callTool \<lparr>toLowerCase = asciiLower, toISOString = (\<lambda>t. ''T'')\<rparr>
       \<lparr>random36 = ''0.c3'', newDate = 30, dateNow = 31, set_ok = True,
        zadd_ok = True, zrevrange_ok = True, get_ok = (\<lambda>n. True)\<rparr>
       ''search-memories'' (JObj [(''query'', JStr ''''), (''userId'', JStr ''u2'')])
       (run \<lparr>toLowerCase = asciiLower, toISOString = (\<lambda>t. ''T'')\<rparr> (filter (recordsFor ''u2'') ?cs) initialState)) =
     Inr (TextContent (foundText \<lparr>toLowerCase = asciiLower, toISOString = (\<lambda>t. ''T'')\<rparr> ''''
       [\<lparr>hit_id = ''b2'', hit_content = ''mine'', hit_timestamp = 20\<rparr>]))"
    unfolding p
    by (simp add: callTool_def wrapError_def addMemory_def searchMemories_def getProp_def
        storeMemory_def redis_set_def redis_zadd_def newMemory_def newId_def substring_def
        memoryKey_def indexKey_def initialState_def Let_def searchResults_def searchStore_def
        redis_zrevrange_def redis_get_def slice_def js_sort_def matchesQuery_def
        asciiLower_def toHit_def)
  from h1 h2 [simplified] h3 r
    cross_user_isolation [OF h1 h2 h3, of "\<lparr>toLowerCase = asciiLower, toISOString = (\<lambda>t. ''T'')\<rparr>"
      "\<lparr>random36 = ''0.c3'', newDate = 30, dateNow = 31, set_ok = True,
        zadd_ok = True, zrevrange_ok = True, get_ok = (\<lambda>n. True)\<rparr>"]
  show ?thesis by simp
qed

end
